theory Spec2Isabelle
  imports Main "HOL-Library.Multiset" "HOL-Library.Sublist" "HOL-Library.Char_ord"
    "HOL-Library.List_Lexorder" "HOL-Library.Product_Lexorder"
begin

section \<open>Values and exceptions\<close>

text \<open>
  The script \<^verbatim>\<open>rebuild_camera_bundles.py\<close> works on whatever \<^verbatim>\<open>json.load\<close> returns:
  \<^verbatim>\<open>None\<close>, a bool, an int, a float, a str, a list or a dict. A dict keeps its keys
  in insertion order, so an object is an association list. The script never computes with a
  float; it is carried by its printed form. Strings are character lists, compared
  character by character the way Python compares str values.
\<close>

datatype json =
    JNull
  | JBool bool
  | JInt int
  | JFloat string
  | JStr string
  | JArr "json list"
  | JObj "(string \<times> json) list"

text \<open>The exceptions that the operations used by the script can raise.\<close>

datatype err =
    OSError
  | JSONDecodeError
  | UnicodeError
  | TypeError
  | KeyError
  | IndexError
  | AttributeError

definition bindE :: "err + 'a \<Rightarrow> ('a \<Rightarrow> err + 'b) \<Rightarrow> err + 'b" where
  "bindE m f = (case m of Inl e \<Rightarrow> Inl e | Inr x \<Rightarrow> f x)"

section \<open>The Python operations the script applies to loaded values\<close>

text \<open>\<^verbatim>\<open>p in s\<close> on two str values: \<^verbatim>\<open>p\<close> occurs in \<^verbatim>\<open>s\<close> as a contiguous run.\<close>

fun str_contains :: "string \<Rightarrow> string \<Rightarrow> bool" where
  "str_contains p [] = (p = [])"
| "str_contains p (c # cs) = (prefix p (c # cs) \<or> str_contains p cs)"

text \<open>
  \<^verbatim>\<open>k in x\<close> for a str \<^verbatim>\<open>k\<close>: key membership on a dict, element membership on a
  list, substring test on a str, \<^verbatim>\<open>TypeError\<close> on everything else.
\<close>

fun py_in :: "string \<Rightarrow> json \<Rightarrow> err + bool" where
  "py_in k (JObj kvs) = Inr (k \<in> set (map fst kvs))"
| "py_in k (JArr xs) = Inr (JStr k \<in> set xs)"
| "py_in k (JStr s) = Inr (str_contains k s)"
| "py_in k JNull = Inl TypeError"
| "py_in k (JBool b) = Inl TypeError"
| "py_in k (JInt i) = Inl TypeError"
| "py_in k (JFloat r) = Inl TypeError"

text \<open>\<^verbatim>\<open>x[k]\<close> for a str \<^verbatim>\<open>k\<close>: only a dict can be subscripted by a str.\<close>

fun py_getitem :: "json \<Rightarrow> string \<Rightarrow> err + json" where
  "py_getitem (JObj kvs) k = (case map_of kvs k of None \<Rightarrow> Inl KeyError | Some v \<Rightarrow> Inr v)"
| "py_getitem (JArr xs) k = Inl TypeError"
| "py_getitem (JStr s) k = Inl TypeError"
| "py_getitem JNull k = Inl TypeError"
| "py_getitem (JBool b) k = Inl TypeError"
| "py_getitem (JInt i) k = Inl TypeError"
| "py_getitem (JFloat r) k = Inl TypeError"

text \<open>\<^verbatim>\<open>len(x)\<close>.\<close>

fun py_len :: "json \<Rightarrow> err + nat" where
  "py_len (JObj kvs) = Inr (length kvs)"
| "py_len (JArr xs) = Inr (length xs)"
| "py_len (JStr s) = Inr (length s)"
| "py_len JNull = Inl TypeError"
| "py_len (JBool b) = Inl TypeError"
| "py_len (JInt i) = Inl TypeError"
| "py_len (JFloat r) = Inl TypeError"

text \<open>
  \<^verbatim>\<open>x[0]\<close>: the first element of a list, the first character of a str (as a str of length
  one); a dict loaded from JSON has str keys only, so the key \<^verbatim>\<open>0\<close> is never there.
\<close>

fun py_getitem0 :: "json \<Rightarrow> err + json" where
  "py_getitem0 (JArr xs) = (case xs of [] \<Rightarrow> Inl IndexError | x # _ \<Rightarrow> Inr x)"
| "py_getitem0 (JStr s) = (case s of [] \<Rightarrow> Inl IndexError | c # _ \<Rightarrow> Inr (JStr [c]))"
| "py_getitem0 (JObj kvs) = Inl KeyError"
| "py_getitem0 JNull = Inl TypeError"
| "py_getitem0 (JBool b) = Inl TypeError"
| "py_getitem0 (JInt i) = Inl TypeError"
| "py_getitem0 (JFloat r) = Inl TypeError"

text \<open>
  The elements \<^verbatim>\<open>list.extend(x)\<close> appends: those of a list, the characters of a str, the
  keys of a dict; anything else is not iterable and nothing is appended.
\<close>

fun py_iter :: "json \<Rightarrow> err + json list" where
  "py_iter (JArr xs) = Inr xs"
| "py_iter (JStr s) = Inr (map (\<lambda>c. JStr [c]) s)"
| "py_iter (JObj kvs) = Inr (map (\<lambda>kv. JStr (fst kv)) kvs)"
| "py_iter JNull = Inl TypeError"
| "py_iter (JBool b) = Inl TypeError"
| "py_iter (JInt i) = Inl TypeError"
| "py_iter (JFloat r) = Inl TypeError"

text \<open>\<^verbatim>\<open>x.get(k, '')\<close>: a method of dict only.\<close>

fun py_get :: "json \<Rightarrow> string \<Rightarrow> err + json" where
  "py_get (JObj kvs) k = Inr (case map_of kvs k of None \<Rightarrow> JStr [] | Some v \<Rightarrow> v)"
| "py_get (JArr xs) k = Inl AttributeError"
| "py_get (JStr s) k = Inl AttributeError"
| "py_get JNull k = Inl AttributeError"
| "py_get (JBool b) k = Inl AttributeError"
| "py_get (JInt i) k = Inl AttributeError"
| "py_get (JFloat r) k = Inl AttributeError"

text \<open>
  \<^verbatim>\<open>x.upper()\<close>: a method of str only. The case mapping itself belongs to the Python
  runtime, so it is the parameter \<open>up\<close>.
\<close>

fun py_upper :: "(string \<Rightarrow> string) \<Rightarrow> json \<Rightarrow> err + string" where
  "py_upper up (JStr s) = Inr (up s)"
| "py_upper up (JArr xs) = Inl AttributeError"
| "py_upper up (JObj kvs) = Inl AttributeError"
| "py_upper up JNull = Inl AttributeError"
| "py_upper up (JBool b) = Inl AttributeError"
| "py_upper up (JInt i) = Inl AttributeError"
| "py_upper up (JFloat r) = Inl AttributeError"

section \<open>File names\<close>

text \<open>
  \<^verbatim>\<open>fnmatch\<close> for patterns made of literal characters, \<^verbatim>\<open>*\<close> and \<^verbatim>\<open>?\<close> (the
  pattern of the script has no bracket expression), case-sensitive as on POSIX.
\<close>

fun fnmatch :: "string \<Rightarrow> string \<Rightarrow> bool" where
  "fnmatch [] [] = True"
| "fnmatch [] (p # ps) = (p = CHR ''*'' \<and> fnmatch [] ps)"
| "fnmatch (c # cs) [] = False"
| "fnmatch (c # cs) (p # ps) =
     (if p = CHR ''*'' then fnmatch (c # cs) ps \<or> fnmatch cs (p # ps)
      else (p = CHR ''?'' \<or> p = c) \<and> fnmatch cs ps)"

text \<open>
  \<^verbatim>\<open>glob.glob(pat)\<close> for a pattern without a directory part: the names of the
  working directory that match, in the order the directory scan yields them; a name starting
  with a dot is never matched by a pattern that does not start with one.
\<close>

definition is_hidden :: "string \<Rightarrow> bool" where
  "is_hidden n = (case n of [] \<Rightarrow> False | c # _ \<Rightarrow> c = CHR ''.'')"

definition glob :: "string list \<Rightarrow> string \<Rightarrow> string list" where
  "glob names pat =
     (if is_hidden pat then filter (\<lambda>n. fnmatch n pat) names
      else filter (\<lambda>n. \<not> is_hidden n \<and> fnmatch n pat) names)"

text \<open>
  \<^verbatim>\<open>Path(f).stem\<close> for a name without directory part: the name up to its last dot,
  when that dot is neither the first nor the last character.
\<close>

definition stem :: "string \<Rightarrow> string" where
  "stem n =
     (if CHR ''.'' \<in> set n then
        (let i = length n - Suc (length (takeWhile (\<lambda>c. c \<noteq> CHR ''.'') (rev n)))
         in if 0 < i \<and> i < length n - 1 then take i n else n)
      else n)"

text \<open>\<^verbatim>\<open>s.replace(p, '')\<close>: every occurrence of \<^verbatim>\<open>p\<close>, from the left, is removed.\<close>

function str_remove :: "string \<Rightarrow> string \<Rightarrow> string" where
  "str_remove p s =
     (if p = [] \<or> s = [] then s
      else if prefix p s then str_remove p (drop (length p) s)
      else hd s # str_remove p (tl s))"
  by pat_completeness auto
termination
  by (relation "measure (\<lambda>(p, s). length s)") auto

definition region_name :: "string \<Rightarrow> string" where
  "region_name f = str_remove ''Camera_Database_'' (stem f)"

section \<open>The surroundings of a run\<close>

text \<open>
  What a run reads from outside the script: the names in the working directory in the order
  the directory scan happens to yield them, the result of opening a name and applying
  \<^verbatim>\<open>json.load\<close> (a value or the exception raised), whether writing a text to a
  path succeeds, and the two library functions \<^verbatim>\<open>str.upper\<close> and
  \<^verbatim>\<open>json.dump\<close> with the script's arguments \<^verbatim>\<open>indent=2, ensure_ascii=False\<close>.
\<close>

record world =
  scandir :: "string list"
  json_load :: "string \<Rightarrow> err + json"
  write_file :: "string \<Rightarrow> string \<Rightarrow> err option"
  str_upper :: "string \<Rightarrow> string"
  json_dump :: "json \<Rightarrow> string"

text \<open>The lines the script prints, one constructor per \<^verbatim>\<open>print\<close> call.\<close>

datatype event =
    FoundFiles nat
  | Loading string
  | Added nat string
  | NoStaticAlerts string
  | NoFeeds string
  | ErrorLoading string err
  | TotalCollected nat
  | RegionsProcessed "string list"
  | Writing string
  | Saved nat
  | Sorting
  | SavedSorted nat
  | Complete
  | Success nat
  | ErrorRebuilding err

section \<open>Discovering and loading the regional files\<close>

definition regional_files :: "world \<Rightarrow> string list" where
  "regional_files w =
     filter (\<lambda>f. \<not> str_contains ''Bundle'' f) (glob (scandir w) ''Camera_Database_*.json'')"

text \<open>
  The body of the \<^verbatim>\<open>try\<close> up to the assignment of \<^verbatim>\<open>cameras\<close>: the three ways it
  can go without raising. The second operand of \<^verbatim>\<open>and\<close> is evaluated only when the
  first is true, and \<^verbatim>\<open>data['feeds']\<close> is evaluated again for the subscript.
\<close>

datatype found = Cameras json | MissingAlerts | MissingFeeds

definition find_cameras :: "json \<Rightarrow> err + found" where
  "find_cameras data =
     bindE (py_in ''feeds'' data) (\<lambda>has_feeds.
     bindE (if has_feeds
            then bindE (py_getitem data ''feeds'') (\<lambda>fs.
                 bindE (py_len fs) (\<lambda>n. Inr (0 < n)))
            else Inr False) (\<lambda>nonempty.
     if nonempty then
       bindE (py_getitem data ''feeds'') (\<lambda>fs.
       bindE (py_getitem0 fs) (\<lambda>feed.
       bindE (py_in ''staticAlerts'' feed) (\<lambda>has_alerts.
       if has_alerts
       then bindE (py_getitem feed ''staticAlerts'') (\<lambda>cameras. Inr (Cameras cameras))
       else Inr MissingAlerts)))
     else Inr MissingFeeds))"

record acc =
  all_cameras :: "json list"
  regions_processed :: "string list"
  printed :: "event list"

definition say :: "event \<Rightarrow> acc \<Rightarrow> acc" where
  "say ev st = st\<lparr>printed := printed st @ [ev]\<rparr>"

text \<open>
  One iteration of the loop. Every exception raised inside the \<^verbatim>\<open>try\<close> is caught, printed
  and the loop goes on; \<^verbatim>\<open>extend\<close> raises before it appends anything when its argument
  is not iterable.
\<close>

definition process_file :: "world \<Rightarrow> acc \<Rightarrow> string \<Rightarrow> acc" where
  "process_file w st0 regional_file =
     (let region = region_name regional_file;
          st = say (Loading region) st0
      in case json_load w regional_file of
           Inl e \<Rightarrow> say (ErrorLoading region e) st
         | Inr data \<Rightarrow>
             (case find_cameras data of
                Inl e \<Rightarrow> say (ErrorLoading region e) st
              | Inr MissingFeeds \<Rightarrow> say (NoFeeds region) st
              | Inr MissingAlerts \<Rightarrow> say (NoStaticAlerts region) st
              | Inr (Cameras cameras) \<Rightarrow>
                  (case py_iter cameras of
                     Inl e \<Rightarrow> say (ErrorLoading region e) st
                   | Inr items \<Rightarrow>
                       (let st' = st\<lparr>all_cameras := all_cameras st @ items,
                                      regions_processed := regions_processed st @ [region]\<rparr>
                        in case py_len cameras of
                             Inl e \<Rightarrow> say (ErrorLoading region e) st'
                           | Inr n \<Rightarrow> say (Added n region) st'))))"

definition load_regions :: "world \<Rightarrow> acc" where
  "load_regions w =
     foldl (process_file w)
       \<lparr>all_cameras = [], regions_processed = [],
        printed = [FoundFiles (length (regional_files w))]\<rparr>
       (sort (regional_files w))"

section \<open>Bundling, sorting and writing\<close>

definition make_bundle :: "string \<Rightarrow> json list \<Rightarrow> json" where
  "make_bundle description cameras =
     JObj [(''feeds'', JArr [JObj
       [(''id'', JStr ''dukes-r8-camera-database''),
        (''name'', JStr ''Dukes R8 Camera Database''),
        (''description'', JStr description),
        (''type'', JStr ''camera''),
        (''refreshIntervalMinutes'', JInt 1440),
        (''staticAlerts'', JArr cameras)]])]"

definition bundle_path :: string where
  "bundle_path = ''Camera_Database_Bundle.json''"

definition sorted_bundle_path :: string where
  "sorted_bundle_path = ''Camera_Database_Bundle_Sorted.json''"

text \<open>The \<^verbatim>\<open>lambda\<close> given to \<^verbatim>\<open>sorted\<close>; the tuple is built from left to right.\<close>

definition camera_key :: "(string \<Rightarrow> string) \<Rightarrow> json \<Rightarrow> err + (string \<times> string \<times> string)" where
  "camera_key up x =
     bindE (bindE (py_get x ''state'') (py_upper up)) (\<lambda>s.
     bindE (bindE (py_get x ''city'') (py_upper up)) (\<lambda>c.
     bindE (bindE (py_get x ''street'') (py_upper up)) (\<lambda>t.
     Inr (s, c, t))))"

text \<open>
  \<^verbatim>\<open>sorted(xs, key=f)\<close> first computes the key of every element, in order, and an exception
  of \<^verbatim>\<open>f\<close> leaves it at once; then it sorts the elements by their keys, stably. A stable
  sort has one result only, which insertion by key computes.
\<close>

fun keyed :: "('a \<Rightarrow> err + 'k) \<Rightarrow> 'a list \<Rightarrow> err + ('k \<times> 'a) list" where
  "keyed f [] = Inr []"
| "keyed f (x # xs) =
     bindE (f x) (\<lambda>k. bindE (keyed f xs) (\<lambda>rest. Inr ((k, x) # rest)))"

definition py_sorted :: "('a \<Rightarrow> err + 'k::linorder) \<Rightarrow> 'a list \<Rightarrow> err + 'a list" where
  "py_sorted f xs = bindE (keyed f xs) (\<lambda>kxs. Inr (map snd (sort_key fst kxs)))"

definition unsorted_bundle :: "world \<Rightarrow> json" where
  "unsorted_bundle w =
     make_bundle ''Community-sourced camera locations for Dukes R8 app''
       (all_cameras (load_regions w))"

definition sorted_cameras :: "world \<Rightarrow> err + json list" where
  "sorted_cameras w = py_sorted (camera_key (str_upper w)) (all_cameras (load_regions w))"

definition sorted_bundle :: "world \<Rightarrow> err + json" where
  "sorted_bundle w =
     bindE (sorted_cameras w) (\<lambda>cs. Inr (make_bundle
       ''Community-sourced camera locations for Dukes R8 app (sorted)'' cs))"

text \<open>
  A run of \<^verbatim>\<open>rebuild_bundles\<close>: what it printed, the files it wrote completely (path and
  text, in the order written) and its return value or the exception that left it.
\<close>

record run =
  stdout :: "event list"
  written :: "(string \<times> string) list"
  result :: "err + nat"

definition rebuild_bundles :: "world \<Rightarrow> run" where
  "rebuild_bundles w =
     (let st = load_regions w;
          n = length (all_cameras st);
          p1 = printed st @ [TotalCollected n, RegionsProcessed (regions_processed st),
                 Writing bundle_path];
          f1 = (bundle_path, json_dump w (unsorted_bundle w))
      in case write_file w (fst f1) (snd f1) of
           Some e \<Rightarrow> \<lparr>stdout = p1, written = [], result = Inl e\<rparr>
         | None \<Rightarrow>
             (let p2 = p1 @ [Saved n, Sorting]
              in case sorted_bundle w of
                   Inl e \<Rightarrow> \<lparr>stdout = p2, written = [f1], result = Inl e\<rparr>
                 | Inr bundle_sorted \<Rightarrow>
                     (let p3 = p2 @ [Writing sorted_bundle_path];
                          f2 = (sorted_bundle_path, json_dump w bundle_sorted)
                      in case write_file w (fst f2) (snd f2) of
                           Some e \<Rightarrow> \<lparr>stdout = p3, written = [f1], result = Inl e\<rparr>
                         | None \<Rightarrow>
                             \<lparr>stdout = p3 @ [SavedSorted n, Complete],
                              written = [f1, f2], result = Inr n\<rparr>)))"

text \<open>The script run as a program: what was printed, the files written, the exit status.\<close>

record process =
  console :: "event list"
  files :: "(string \<times> string) list"
  exit_status :: nat

definition main :: "world \<Rightarrow> process" where
  "main w =
     (let r = rebuild_bundles w
      in case result r of
           Inr camera_count \<Rightarrow>
             \<lparr>console = stdout r @ [Success camera_count], files = written r, exit_status = 0\<rparr>
         | Inl e \<Rightarrow>
             \<lparr>console = stdout r @ [ErrorRebuilding e], files = written r, exit_status = 1\<rparr>)"

section \<open>Notions of the specification\<close>

text \<open>
  The \<^verbatim>\<open>feeds[0].staticAlerts\<close> of a document, as the specification describes a regional
  dataset: the document is an object, its \<^verbatim>\<open>feeds\<close> is a sequence with at least one entry,
  the first entry is an object and has the field \<^verbatim>\<open>staticAlerts\<close>.
\<close>

definition static_alerts :: "json \<Rightarrow> json option" where
  "static_alerts d =
     (case d of
        JObj kvs \<Rightarrow>
          (case map_of kvs ''feeds'' of
             Some (JArr (JObj feed # _)) \<Rightarrow> map_of feed ''staticAlerts''
           | _ \<Rightarrow> None)
      | _ \<Rightarrow> None)"

text \<open>The record sequence a bundle document holds.\<close>

definition bundle_records :: "json \<Rightarrow> json list" where
  "bundle_records b = (case static_alerts b of Some (JArr xs) \<Rightarrow> xs | _ \<Rightarrow> [])"

text \<open>
  The records extracted from a candidate file: none when it cannot be parsed, when the
  structure is absent or when \<^verbatim>\<open>staticAlerts\<close> cannot be iterated.
\<close>

definition file_records :: "world \<Rightarrow> string \<Rightarrow> json list" where
  "file_records w f =
     (case json_load w f of
        Inl e \<Rightarrow> []
      | Inr d \<Rightarrow>
          (case static_alerts d of
             None \<Rightarrow> []
           | Some c \<Rightarrow> (case py_iter c of Inl e \<Rightarrow> [] | Inr items \<Rightarrow> items)))"

definition has_alerts :: "world \<Rightarrow> string \<Rightarrow> bool" where
  "has_alerts w f = (case json_load w f of Inl e \<Rightarrow> False | Inr d \<Rightarrow> static_alerts d \<noteq> None)"

text \<open>The printed lines that report that a region was skipped.\<close>

fun is_diagnostic :: "string \<Rightarrow> event \<Rightarrow> bool" where
  "is_diagnostic r (NoFeeds r') = (r' = r)"
| "is_diagnostic r (NoStaticAlerts r') = (r' = r)"
| "is_diagnostic r (ErrorLoading r' e) = (r' = r)"
| "is_diagnostic r ev = False"

text \<open>
  The sort key in the words of the specification: state, city and street, each defaulted to
  the empty string when absent and upper-cased, compared lexicographically.
\<close>

definition field_or_empty :: "json \<Rightarrow> string \<Rightarrow> string" where
  "field_or_empty x k =
     (case x of
        JObj kvs \<Rightarrow> (case map_of kvs k of Some (JStr s) \<Rightarrow> s | _ \<Rightarrow> [])
      | _ \<Rightarrow> [])"

definition tuple_key :: "(string \<Rightarrow> string) \<Rightarrow> json \<Rightarrow> string \<times> string \<times> string" where
  "tuple_key up x =
     (up (field_or_empty x ''state''), up (field_or_empty x ''city''),
      up (field_or_empty x ''street''))"

definition lex_le :: "string \<times> string \<times> string \<Rightarrow> string \<times> string \<times> string \<Rightarrow> bool" where
  "lex_le a b =
     (case a of (s, c, t) \<Rightarrow> case b of (s', c', t') \<Rightarrow>
        s < s' \<or> (s = s' \<and> (c < c' \<or> (c = c' \<and> t \<le> t'))))"

text \<open>
  A record whose \<^verbatim>\<open>state\<close>, \<^verbatim>\<open>city\<close> and \<^verbatim>\<open>street\<close>, where present, are strings.
\<close>

fun str_or_absent :: "json option \<Rightarrow> bool" where
  "str_or_absent None = True"
| "str_or_absent (Some (JStr s)) = True"
| "str_or_absent (Some v) = False"

definition is_record :: "json \<Rightarrow> bool" where
  "is_record x =
     (case x of
        JObj kvs \<Rightarrow> str_or_absent (map_of kvs ''state'') \<and> str_or_absent (map_of kvs ''city'')
                      \<and> str_or_absent (map_of kvs ''street'')
      | _ \<Rightarrow> False)"

text \<open>
  A valid regional file parses to a document whose \<^verbatim>\<open>feeds[0].staticAlerts\<close> is a sequence of
  records; a malformed one does not parse or lacks \<^verbatim>\<open>feeds[0].staticAlerts\<close>.
\<close>

definition valid_file :: "world \<Rightarrow> string \<Rightarrow> bool" where
  "valid_file w f =
     (case json_load w f of
        Inl e \<Rightarrow> False
      | Inr d \<Rightarrow> (case static_alerts d of Some (JArr xs) \<Rightarrow> list_all is_record xs | _ \<Rightarrow> False))"

definition malformed_file :: "world \<Rightarrow> string \<Rightarrow> bool" where
  "malformed_file w f =
     (case json_load w f of Inl e \<Rightarrow> True | Inr d \<Rightarrow> static_alerts d = None)"

text \<open>
  The records of a valid regional file: the sequence its \<^verbatim>\<open>feeds[0].staticAlerts\<close> holds,
  read off the document itself.
\<close>

definition valid_records :: "world \<Rightarrow> string \<Rightarrow> json list" where
  "valid_records w f =
     (case json_load w f of
        Inl e \<Rightarrow> []
      | Inr d \<Rightarrow> (case static_alerts d of Some (JArr xs) \<Rightarrow> xs | _ \<Rightarrow> []))"

section \<open>An example directory\<close>

text \<open>
  A concrete world on which the theorems below are exercised: upper-casing of ASCII letters
  stands for \<^verbatim>\<open>str.upper\<close>, a compact printer for \<^verbatim>\<open>json.dump\<close>.
\<close>

definition ascii_upper :: "string \<Rightarrow> string" where
  "ascii_upper s =
     map (\<lambda>c. if CHR ''a'' \<le> c \<and> c \<le> CHR ''z'' then char_of (of_char c - (32::nat)) else c) s"

function digits :: "nat \<Rightarrow> string" where
  "digits n =
     (if n < 10 then [char_of (48 + n)] else digits (n div 10) @ [char_of (48 + n mod 10)])"
  by pat_completeness auto
termination
  by (relation "measure id") auto

primrec show_json :: "json \<Rightarrow> string" where
  "show_json JNull = ''null''"
| "show_json (JBool b) = (if b then ''true'' else ''false'')"
| "show_json (JInt i) = (if i < 0 then CHR ''-'' # digits (nat (- i)) else digits (nat i))"
| "show_json (JFloat r) = r"
| "show_json (JStr s) = ''<'' @ s @ ''>''"
| "show_json (JArr xs) = ''['' @ concat (map (\<lambda>t. t @ '','') (map show_json xs)) @ '']''"
| "show_json (JObj kvs) =
     ''{'' @ concat (map (\<lambda>(k, t). k @ '':'' @ t @ '','') (map (map_prod id show_json) kvs))
       @ ''}''"

definition camera :: "int \<Rightarrow> string \<Rightarrow> string \<Rightarrow> string \<Rightarrow> json" where
  "camera i s c t =
     JObj [(''id'', JInt i), (''state'', JStr s), (''city'', JStr c), (''street'', JStr t)]"

definition region_doc :: "json \<Rightarrow> json" where
  "region_doc alerts =
     JObj [(''feeds'', JArr [JObj [(''id'', JStr ''region''), (''staticAlerts'', alerts)]])]"

definition demo_load :: "string \<Rightarrow> err + json" where
  "demo_load f =
     (if f = ''Camera_Database_TX.json'' then
        Inr (region_doc (JArr [camera 1 ''TX'' ''Austin'' ''Main St'',
                               camera 2 ''tx'' ''austin'' ''main st'',
                               JObj [(''id'', JInt 4), (''state'', JStr ''az'')]]))
      else if f = ''Camera_Database_CA.json'' then
        Inr (region_doc (JArr [camera 3 ''CA'' ''Fresno'' ''Oak Ave'']))
      else if f = ''Camera_Database_Broken.json'' then Inl JSONDecodeError
      else if f = ''Camera_Database_Empty.json'' then Inr (JObj [(''feeds'', JArr [])])
      else Inl OSError)"

definition demo :: world where
  "demo =
     \<lparr>scandir = [''Camera_Database_TX.json'', ''notes.txt'', ''Camera_Database_Bundle.json'',
                 ''Camera_Database_Broken.json'', ''Camera_Database_CA.json'',
                 ''Camera_Database_Empty.json''],
      json_load = demo_load,
      write_file = (\<lambda>p t. None),
      str_upper = ascii_upper,
      json_dump = show_json\<rparr>"

definition demo_sorted :: "json list" where
  "demo_sorted =
     [JObj [(''id'', JInt 4), (''state'', JStr ''az'')],
      camera 3 ''CA'' ''Fresno'' ''Oak Ave'',
      camera 1 ''TX'' ''Austin'' ''Main St'',
      camera 2 ''tx'' ''austin'' ''main st'']"

text \<open>Two directories with a single region whose \<^verbatim>\<open>staticAlerts\<close> is not a list.\<close>

definition null_world :: world where
  "null_world =
     \<lparr>scandir = [''Camera_Database_TX.json''],
      json_load = (\<lambda>f. Inr (region_doc JNull)),
      write_file = (\<lambda>p t. None),
      str_upper = ascii_upper,
      json_dump = show_json\<rparr>"

definition str_world :: world where
  "str_world =
     \<lparr>scandir = [''Camera_Database_TX.json''],
      json_load = (\<lambda>f. Inr (region_doc (JStr ''ab''))),
      write_file = (\<lambda>p t. None),
      str_upper = ascii_upper,
      json_dump = show_json\<rparr>"

definition acc0 :: acc where
  "acc0 = \<lparr>all_cameras = [], regions_processed = [], printed = []\<rparr>"

text \<open>The example directory when no file can be written.\<close>

definition readonly_world :: world where
  "readonly_world = demo\<lparr>write_file := (\<lambda>p t. Some OSError)\<rparr>"


text \<open>
  The example directory seen by a second run: scanned in another order, with both output
  files present and readable.
\<close>

definition demo_rerun :: world where
  "demo_rerun =
     demo\<lparr>scandir := [''Camera_Database_Bundle_Sorted.json'', ''Camera_Database_Empty.json'',
                       ''Camera_Database_CA.json'', ''notes.txt'', ''Camera_Database_Bundle.json'',
                       ''Camera_Database_Broken.json'', ''Camera_Database_TX.json''],
          json_load := (\<lambda>f. if f = bundle_path \<or> f = sorted_bundle_path
                             then Inr (region_doc (JArr [camera 9 ''NY'' ''Albany'' ''Elm St'']))
                             else demo_load f)\<rparr>"

section \<open>Loading: what one candidate file contributes\<close>

lemma py_in_obj: "py_in k (JObj kvs) = Inr (map_of kvs k \<noteq> None)"
  by (simp add: map_of_eq_None_iff)

lemma str_contains_single: "length p > 1 \<Longrightarrow> \<not> str_contains p [c]"
  by (cases p) auto

lemma find_cameras_obj:
  "find_cameras (JObj kvs) =
     (case map_of kvs ''feeds'' of
        None \<Rightarrow> Inr MissingFeeds
      | Some fs \<Rightarrow>
          bindE (py_len fs) (\<lambda>n.
            if 0 < n then
              bindE (py_getitem0 fs) (\<lambda>feed.
              bindE (py_in ''staticAlerts'' feed) (\<lambda>b.
                if b then bindE (py_getitem feed ''staticAlerts'') (\<lambda>c. Inr (Cameras c))
                else Inr MissingAlerts))
            else Inr MissingFeeds))"
  unfolding find_cameras_def py_in_obj
  by (auto simp: bindE_def split: option.splits sum.splits)

lemma feed_alerts:
  "bindE (py_in ''staticAlerts'' feed) (\<lambda>b.
      if b then bindE (py_getitem feed ''staticAlerts'') (\<lambda>c. Inr (Cameras c))
      else Inr MissingAlerts) = Inr (Cameras c)
   \<longleftrightarrow> (\<exists>f. feed = JObj f \<and> map_of f ''staticAlerts'' = Some c)"
  by (cases feed) (auto simp: bindE_def py_in_obj simp del: py_in.simps(1) split: option.splits)

lemma find_cameras_Cameras_iff:
  "find_cameras d = Inr (Cameras c) \<longleftrightarrow> static_alerts d = Some c"
proof (cases d)
  case (JObj kvs)
  show ?thesis
  proof (cases "map_of kvs ''feeds''")
    case None
    then show ?thesis using JObj by (simp add: find_cameras_obj static_alerts_def)
  next
    case (Some fs)
    show ?thesis
    proof (cases fs)
      case (JArr xs)
      show ?thesis
      proof (cases xs)
        case Nil
        then show ?thesis using JObj Some JArr
          by (simp add: find_cameras_obj static_alerts_def bindE_def)
      next
        case (Cons feed rest)
        have "find_cameras d = bindE (py_in ''staticAlerts'' feed) (\<lambda>b.
                if b then bindE (py_getitem feed ''staticAlerts'') (\<lambda>c. Inr (Cameras c))
                else Inr MissingAlerts)"
          using JObj Some JArr Cons by (simp add: find_cameras_obj bindE_def)
        moreover have "static_alerts d = Some c \<longleftrightarrow> (\<exists>f. feed = JObj f \<and> map_of f ''staticAlerts'' = Some c)"
          using JObj Some JArr Cons by (cases feed) (simp_all add: static_alerts_def)
        ultimately show ?thesis by (simp only: feed_alerts)
      qed
    next
      case (JStr s)
      have "s \<noteq> [] \<Longrightarrow> py_in ''staticAlerts'' (JStr [hd s]) = Inr False"
        by (simp add: str_contains_single)
      then show ?thesis using JObj Some JStr
        by (cases s) (auto simp: find_cameras_obj static_alerts_def bindE_def)
    qed (use JObj Some in \<open>auto simp: find_cameras_obj static_alerts_def bindE_def\<close>)
  qed
qed (auto simp: find_cameras_def static_alerts_def bindE_def)

lemma static_alerts_None_iff:
  "static_alerts d = None \<longleftrightarrow> (\<forall>c. find_cameras d \<noteq> Inr (Cameras c))"
  by (simp add: find_cameras_Cameras_iff)

lemma py_iter_len: "py_iter c = Inr items \<Longrightarrow> py_len c = Inr (length items)"
  by (cases c) auto

lemma process_file_load_error:
  "json_load w f = Inl e \<Longrightarrow>
   process_file w st f = say (ErrorLoading (region_name f) e) (say (Loading (region_name f)) st)"
  by (simp add: process_file_def Let_def)

lemma process_file_no_alerts:
  assumes "json_load w f = Inr d" "static_alerts d = None"
  shows "\<exists>ev. is_diagnostic (region_name f) ev \<and>
           process_file w st f = say ev (say (Loading (region_name f)) st)"
proof (cases "find_cameras d")
  case (Inl e)
  then show ?thesis using assms(1)
    by (intro exI[of _ "ErrorLoading (region_name f) e"]) (simp add: process_file_def Let_def)
next
  case (Inr r)
  show ?thesis
  proof (cases r)
    case (Cameras c)
    then show ?thesis using Inr assms(2) by (simp add: static_alerts_None_iff)
  next
    case MissingAlerts
    then show ?thesis using Inr assms(1)
      by (intro exI[of _ "NoStaticAlerts (region_name f)"]) (simp add: process_file_def Let_def)
  next
    case MissingFeeds
    then show ?thesis using Inr assms(1)
      by (intro exI[of _ "NoFeeds (region_name f)"]) (simp add: process_file_def Let_def)
  qed
qed

lemma process_file_not_iterable:
  assumes "json_load w f = Inr d" "static_alerts d = Some c" "py_iter c = Inl e"
  shows "process_file w st f =
           say (ErrorLoading (region_name f) e) (say (Loading (region_name f)) st)"
proof -
  have "find_cameras d = Inr (Cameras c)"
    using assms(2) by (simp add: find_cameras_Cameras_iff)
  then show ?thesis using assms(1,3) by (simp add: process_file_def Let_def)
qed

lemma process_file_extend:
  assumes "json_load w f = Inr d" "static_alerts d = Some c" "py_iter c = Inr items"
  shows "process_file w st f =
           say (Added (length items) (region_name f))
             ((say (Loading (region_name f)) st)
                \<lparr>all_cameras := all_cameras st @ items,
                 regions_processed := regions_processed st @ [region_name f]\<rparr>)"
proof -
  have "find_cameras d = Inr (Cameras c)"
    using assms(2) by (simp add: find_cameras_Cameras_iff)
  then show ?thesis using assms(1,3) py_iter_len[OF assms(3)]
    by (simp add: process_file_def say_def Let_def)
qed

lemma process_file_cases:
  obtains (error) e where "json_load w f = Inl e"
  | (absent) d where "json_load w f = Inr d" "static_alerts d = None"
  | (not_iterable) d c e where "json_load w f = Inr d" "static_alerts d = Some c" "py_iter c = Inl e"
  | (extend) d c items where "json_load w f = Inr d" "static_alerts d = Some c" "py_iter c = Inr items"
proof (cases "json_load w f")
  case (Inl e) then show ?thesis by (rule error)
next
  case (Inr d)
  show ?thesis
  proof (cases "static_alerts d")
    case None with Inr show ?thesis by (rule absent)
  next
    case (Some c)
    show ?thesis by (cases "py_iter c") (use Inr Some not_iterable extend in blast)+
  qed
qed

lemma all_cameras_process_file:
  "all_cameras (process_file w st f) = all_cameras st @ file_records w f"
proof (cases w f rule: process_file_cases)
  case (error e)
  then show ?thesis by (simp add: process_file_load_error file_records_def say_def)
next
  case (absent d)
  from process_file_no_alerts[OF this, of st] show ?thesis
    using absent by (auto simp: file_records_def say_def)
next
  case (not_iterable d c e)
  from process_file_not_iterable[OF this, of st] show ?thesis
    using not_iterable by (simp add: file_records_def say_def)
next
  case (extend d c items)
  from process_file_extend[OF this, of st] show ?thesis
    using extend by (simp add: file_records_def say_def)
qed

lemma all_cameras_foldl:
  "all_cameras (foldl (process_file w) st fs) = all_cameras st @ concat (map (file_records w) fs)"
  by (induction fs arbitrary: st) (simp_all add: all_cameras_process_file)

lemma all_cameras_load_regions:
  "all_cameras (load_regions w) = concat (map (file_records w) (sort (regional_files w)))"
  by (simp add: load_regions_def all_cameras_foldl)

lemma bundle_records_make_bundle [simp]: "bundle_records (make_bundle d cs) = cs"
  by (simp add: bundle_records_def static_alerts_def make_bundle_def)

lemma get_upper:
  "bindE (py_get (JObj kvs) k) (py_upper up) =
     (if str_or_absent (map_of kvs k) then Inr (up (field_or_empty (JObj kvs) k))
      else Inl AttributeError)"
proof (cases "map_of kvs k")
  case None
  then show ?thesis by (simp add: bindE_def field_or_empty_def)
next
  case (Some v)
  then show ?thesis by (cases v) (simp_all add: bindE_def field_or_empty_def)
qed

lemma camera_key_eq:
  "camera_key up x = (if is_record x then Inr (tuple_key up x) else Inl AttributeError)"
proof (cases x)
  case (JObj kvs)
  show ?thesis unfolding JObj camera_key_def get_upper
    by (simp add: bindE_def is_record_def tuple_key_def)
qed (simp_all add: camera_key_def bindE_def is_record_def)

lemma keyed_Inr:
  "keyed f xs = Inr kxs \<Longrightarrow> map snd kxs = xs \<and> (\<forall>p \<in> set kxs. f (snd p) = Inr (fst p))"
proof (induction xs arbitrary: kxs)
  case Nil
  then show ?case by simp
next
  case (Cons x xs)
  then show ?case by (auto simp: bindE_def split: sum.splits)
qed

lemma keyed_total:
  "(\<forall>x \<in> set xs. \<exists>k. f x = Inr k) \<Longrightarrow> \<exists>kxs. keyed f xs = Inr kxs"
  by (induction xs) (auto simp: bindE_def)


lemma py_sorted_Inr:
  assumes "py_sorted f xs = Inr ys"
  obtains kxs where "keyed f xs = Inr kxs" "ys = map snd (sort_key fst kxs)"
  using assms by (auto simp: py_sorted_def bindE_def split: sum.splits)

lemma py_sorted_mset: "py_sorted f xs = Inr ys \<Longrightarrow> mset ys = mset xs"
proof (erule py_sorted_Inr)
  fix kxs assume k: "keyed f xs = Inr kxs" and ys: "ys = map snd (sort_key fst kxs)"
  have "mset ys = image_mset snd (mset (sort_key fst kxs))" by (simp add: ys)
  also have "\<dots> = mset (map snd kxs)" by simp
  finally show "mset ys = mset xs" using keyed_Inr[OF k] by simp
qed

lemma py_sorted_keys:
  assumes "py_sorted f xs = Inr ys" and g: "\<And>x k. f x = Inr k \<Longrightarrow> k = g x"
  shows "sorted (map g ys)"
proof (rule py_sorted_Inr[OF assms(1)])
  fix kxs assume k: "keyed f xs = Inr kxs" and ys: "ys = map snd (sort_key fst kxs)"
  have "\<forall>p \<in> set (sort_key fst kxs). fst p = g (snd p)"
    using keyed_Inr[OF k] g by auto
  then have "map g ys = map fst (sort_key fst kxs)"
    by (simp add: ys)
  then show "sorted (map g ys)" by (simp add: sorted_sort_key)
qed

lemma py_sorted_stable:
  assumes "py_sorted f xs = Inr ys" and g: "\<And>x k. f x = Inr k \<Longrightarrow> k = g x"
  shows "filter (\<lambda>x. g x = k) ys = filter (\<lambda>x. g x = k) xs"
proof (rule py_sorted_Inr[OF assms(1)])
  fix kxs assume kx: "keyed f xs = Inr kxs" and ys: "ys = map snd (sort_key fst kxs)"
  have fg: "\<forall>p \<in> set kxs. fst p = g (snd p)"
    using keyed_Inr[OF kx] g by auto
  have *: "filter (\<lambda>x. g x = k) (map snd l) = map snd (filter (\<lambda>p. fst p = k) l)"
    if "set l \<subseteq> set kxs" for l
    using that fg by (induction l) auto
  have "filter (\<lambda>x. g x = k) ys = map snd (filter (\<lambda>p. fst p = k) (sort_key fst kxs))"
    unfolding ys by (rule *) simp
  also have "\<dots> = map snd (filter (\<lambda>p. fst p = k) kxs)"
    by (simp only: sort_key_stable)
  also have "\<dots> = filter (\<lambda>x. g x = k) (map snd kxs)"
    by (rule *[symmetric]) simp
  finally show ?thesis using keyed_Inr[OF kx] by simp
qed

lemma camera_key_Inr: "camera_key up x = Inr k \<Longrightarrow> k = tuple_key up x"
  by (simp add: camera_key_eq split: if_splits)

lemma sorted_bundle_Inr:
  "sorted_bundle w = Inr b \<Longrightarrow> sorted_cameras w = Inr (bundle_records b)"
  by (auto simp: sorted_bundle_def bindE_def split: sum.splits)

section \<open>The sorted bundle\<close>

lemma lex_le_iff: "lex_le a b \<longleftrightarrow> a \<le> b"
  by (cases a, cases b) (auto simp: lex_le_def less_eq_prod_def)

lemma demo_sorted_bundle:
  "sorted_bundle demo =
     Inr (make_bundle ''Community-sourced camera locations for Dukes R8 app (sorted)'' demo_sorted)"
  by code_simp

lemma demo_unsorted_records:
  "bundle_records (unsorted_bundle demo) =
     [camera 3 ''CA'' ''Fresno'' ''Oak Ave'', camera 1 ''TX'' ''Austin'' ''Main St'',
      camera 2 ''tx'' ''austin'' ''main st'', JObj [(''id'', JInt 4), (''state'', JStr ''az'')]]"
  by code_simp

text \<open>
  C2. Whenever a run gets as far as building the sorted bundle, the records of the sorted
  bundle are, as a multiset, the records of the unsorted bundle.
\<close>

theorem sorted_bundle_permutation:
  assumes "sorted_bundle w = Inr b"
  shows "mset (bundle_records b) = mset (bundle_records (unsorted_bundle w))"
  using py_sorted_mset[OF sorted_bundle_Inr[OF assms, unfolded sorted_cameras_def]]
  by (simp add: unsorted_bundle_def)

theorem sorted_bundle_permutation_witness:
  "mset demo_sorted = mset (bundle_records (unsorted_bundle demo))
   \<and> demo_sorted \<noteq> bundle_records (unsorted_bundle demo)"
  using sorted_bundle_permutation[OF demo_sorted_bundle]
  by (simp add: demo_unsorted_records demo_sorted_def camera_def)

text \<open>
  C3. In the sorted bundle, the key of every record (state, city, street, each defaulted to
  the empty string when absent and upper-cased) is lexicographically at most the key of the
  record that follows it.
\<close>

theorem sorted_bundle_adjacent:
  assumes "sorted_bundle w = Inr b" and "Suc i < length (bundle_records b)"
  shows "lex_le (tuple_key (str_upper w) (bundle_records b ! i))
           (tuple_key (str_upper w) (bundle_records b ! Suc i))"
proof -
  have "sorted (map (tuple_key (str_upper w)) (bundle_records b))"
    using sorted_bundle_Inr[OF assms(1), unfolded sorted_cameras_def] camera_key_Inr
    by (rule py_sorted_keys)
  then show ?thesis using assms(2) by (simp add: sorted_iff_nth_Suc lex_le_iff)
qed

theorem sorted_bundle_adjacent_witness:
  "lex_le (''AZ'', '''', '''') (''CA'', ''FRESNO'', ''OAK AVE'')"
proof -
  have "Suc 0 < length (bundle_records
          (make_bundle ''Community-sourced camera locations for Dukes R8 app (sorted)'' demo_sorted))"
    by (simp add: demo_sorted_def)
  from sorted_bundle_adjacent[OF demo_sorted_bundle this]
  have "lex_le (tuple_key (str_upper demo) (demo_sorted ! 0))
          (tuple_key (str_upper demo) (demo_sorted ! Suc 0))"
    by (simp only: bundle_records_make_bundle)
  moreover have "tuple_key (str_upper demo) (demo_sorted ! 0) = (''AZ'', [], [])"
    by code_simp
  moreover have "tuple_key (str_upper demo) (demo_sorted ! Suc 0) = (''CA'', ''FRESNO'', ''OAK AVE'')"
    by code_simp
  ultimately show ?thesis by simp
qed

text \<open>
  C4. For every key, the records with that key stand in the sorted bundle in the order in
  which they stand in the accumulated (file-concatenation) sequence: the sort is stable.
\<close>

theorem sorted_bundle_stable:
  assumes "sorted_bundle w = Inr b"
  shows "filter (\<lambda>x. tuple_key (str_upper w) x = k) (bundle_records b)
           = filter (\<lambda>x. tuple_key (str_upper w) x = k) (bundle_records (unsorted_bundle w))"
  using py_sorted_stable[OF sorted_bundle_Inr[OF assms, unfolded sorted_cameras_def] camera_key_Inr]
  by (simp add: unsorted_bundle_def)

theorem sorted_bundle_stable_witness:
  "filter (\<lambda>x. tuple_key ascii_upper x = (''TX'', ''AUSTIN'', ''MAIN ST'')) demo_sorted
     = [camera 1 ''TX'' ''Austin'' ''Main St'', camera 2 ''tx'' ''austin'' ''main st'']"
proof -
  have "filter (\<lambda>x. tuple_key ascii_upper x = (''TX'', ''AUSTIN'', ''MAIN ST''))
          (bundle_records (unsorted_bundle demo))
        = [camera 1 ''TX'' ''Austin'' ''Main St'', camera 2 ''tx'' ''austin'' ''main st'']"
    unfolding demo_unsorted_records by code_simp
  with sorted_bundle_stable[OF demo_sorted_bundle, of "(''TX'', ''AUSTIN'', ''MAIN ST'')"]
  show ?thesis by (simp add: demo_def)
qed

section \<open>Conservation and iteration of \<^verbatim>\<open>staticAlerts\<close>\<close>

lemma file_records_absent: "\<not> has_alerts w f \<Longrightarrow> file_records w f = []"
  by (auto simp: has_alerts_def file_records_def split: sum.splits)

lemma concat_map_filter_nonempty:
  "(\<And>x. \<not> P x \<Longrightarrow> g x = []) \<Longrightarrow> concat (map g (filter P xs)) = concat (map g xs)"
  by (induction xs) auto

lemma file_records_list:
  "json_load w f = Inr d \<Longrightarrow> static_alerts d = Some (JArr xs) \<Longrightarrow> file_records w f = xs"
  by (simp add: file_records_def)

text \<open>
  C1. The unsorted bundle holds the concatenation, in ascending file-name order, of the records
  extracted from the candidate files that parse and have \<^verbatim>\<open>feeds[0].staticAlerts\<close>; its record
  count is the sum of the counts extracted per file, and a file whose \<^verbatim>\<open>staticAlerts\<close> is a
  sequence contributes exactly that sequence.
\<close>

theorem unsorted_bundle_conservation:
  "bundle_records (unsorted_bundle w) =
     concat (map (file_records w) (filter (has_alerts w) (sort (regional_files w))))
   \<and> length (bundle_records (unsorted_bundle w)) =
     sum_list (map (\<lambda>f. length (file_records w f)) (filter (has_alerts w) (sort (regional_files w))))
   \<and> (\<forall>f d xs. json_load w f = Inr d \<and> static_alerts d = Some (JArr xs) \<longrightarrow> file_records w f = xs)"
proof -
  have eq: "bundle_records (unsorted_bundle w) =
     concat (map (file_records w) (filter (has_alerts w) (sort (regional_files w))))"
    by (simp add: unsorted_bundle_def all_cameras_load_regions
        concat_map_filter_nonempty[OF file_records_absent])
  have "length (bundle_records (unsorted_bundle w)) =
     sum_list (map (\<lambda>f. length (file_records w f)) (filter (has_alerts w) (sort (regional_files w))))"
    unfolding eq by (simp add: length_concat comp_def)
  with eq show ?thesis by (simp add: file_records_list)
qed

theorem unsorted_bundle_conservation_witness:
  "length (bundle_records (unsorted_bundle demo)) = 1 + 3
   \<and> filter (has_alerts demo) (sort (regional_files demo))
       = [''Camera_Database_CA.json'', ''Camera_Database_TX.json'']"
proof -
  have fs: "filter (has_alerts demo) (sort (regional_files demo))
       = [''Camera_Database_CA.json'', ''Camera_Database_TX.json'']"
    by code_simp
  have "sum_list (map (\<lambda>f. length (file_records demo f))
          [''Camera_Database_CA.json'', ''Camera_Database_TX.json'']) = 1 + 3"
    by code_simp
  with unsorted_bundle_conservation[of demo] fs show ?thesis by simp
qed

text \<open>
  C10, as stated, fails when \<^verbatim>\<open>staticAlerts\<close> is present and is \<^verbatim>\<open>null\<close>: it is not a list,
  \<^verbatim>\<open>extend\<close> raises, and the region is not counted as processed.
\<close>

theorem extend_not_list_counterexample:
  "''Camera_Database_TX.json'' \<in> set (regional_files null_world)
   \<and> json_load null_world ''Camera_Database_TX.json'' = Inr (region_doc JNull)
   \<and> static_alerts (region_doc JNull) = Some JNull
   \<and> region_name ''Camera_Database_TX.json'' \<notin> set (regions_processed (load_regions null_world))
   \<and> printed (load_regions null_world) = [FoundFiles 1, Loading ''TX'', ErrorLoading ''TX'' TypeError]"
  by code_simp

text \<open>
  C10, amended. When \<^verbatim>\<open>feeds[0].staticAlerts\<close> is present, nothing checks that it is a list.
  A str contributes each of its characters as a record of its own, a dict each of its keys, a
  list each of its elements whatever they are, and the region is counted as processed. For
  \<^verbatim>\<open>null\<close>, a bool or a number, \<^verbatim>\<open>extend\<close> raises \<^verbatim>\<open>TypeError\<close>: nothing is appended,
  the region is not counted, and the error is printed.
\<close>

theorem extend_by_iteration:
  assumes "json_load w f = Inr d" and "static_alerts d = Some c"
  shows "(\<forall>s. c = JStr s \<longrightarrow>
            all_cameras (process_file w st f) = all_cameras st @ map (\<lambda>ch. JStr [ch]) s
          \<and> regions_processed (process_file w st f) = regions_processed st @ [region_name f])
       \<and> (\<forall>kvs. c = JObj kvs \<longrightarrow>
            all_cameras (process_file w st f) = all_cameras st @ map (\<lambda>kv. JStr (fst kv)) kvs
          \<and> regions_processed (process_file w st f) = regions_processed st @ [region_name f])
       \<and> (\<forall>xs. c = JArr xs \<longrightarrow>
            all_cameras (process_file w st f) = all_cameras st @ xs
          \<and> regions_processed (process_file w st f) = regions_processed st @ [region_name f])
       \<and> ((c = JNull \<or> (\<exists>b. c = JBool b) \<or> (\<exists>i. c = JInt i) \<or> (\<exists>r. c = JFloat r)) \<longrightarrow>
            all_cameras (process_file w st f) = all_cameras st
          \<and> regions_processed (process_file w st f) = regions_processed st
          \<and> printed (process_file w st f) =
              printed st @ [Loading (region_name f), ErrorLoading (region_name f) TypeError])"
proof (cases "py_iter c")
  case (Inl e)
  from process_file_not_iterable[OF assms this, of st] Inl
  show ?thesis by (cases c) (simp_all add: say_def)
next
  case (Inr items)
  from process_file_extend[OF assms this, of st] Inr
  show ?thesis by (cases c) (auto simp: say_def)
qed

theorem extend_by_iteration_witness:
  "all_cameras (process_file str_world acc0 ''Camera_Database_TX.json'') = [JStr ''a'', JStr ''b'']
   \<and> regions_processed (process_file str_world acc0 ''Camera_Database_TX.json'') = [''TX'']"
proof -
  have l: "json_load str_world ''Camera_Database_TX.json'' = Inr (region_doc (JStr ''ab''))"
    by (simp add: str_world_def)
  have s: "static_alerts (region_doc (JStr ''ab'')) = Some (JStr ''ab'')"
    by (simp add: static_alerts_def region_doc_def)
  have r: "region_name ''Camera_Database_TX.json'' = ''TX''"
    by code_simp
  from extend_by_iteration[OF l s, of acc0] show ?thesis
    by (simp add: acc0_def r)
qed

section \<open>Which files are candidates\<close>

lemma str_contains_sublist: "str_contains p s = sublist p s"
  by (induction s) (simp_all add: sublist_Cons_right)

lemma str_contains_iff: "str_contains p s \<longleftrightarrow> (\<exists>a b. s = a @ p @ b)"
  by (simp add: str_contains_sublist sublist_def)

lemma fnmatch_Nil_right [simp]: "fnmatch n [] \<longleftrightarrow> n = []"
  by (cases n) simp_all

lemma fnmatch_literal:
  "p \<noteq> CHR ''*'' \<Longrightarrow> p \<noteq> CHR ''?'' \<Longrightarrow> fnmatch n (p # ps) \<longleftrightarrow> (\<exists>t. n = p # t \<and> fnmatch t ps)"
  by (cases n) auto

lemma fnmatch_star: "fnmatch n (CHR ''*'' # ps) \<longleftrightarrow> (\<exists>a b. n = a @ b \<and> fnmatch b ps)"
proof (induction n)
  case Nil
  then show ?case by simp
next
  case (Cons c cs)
  have step: "fnmatch (c # cs) (CHR ''*'' # ps) \<longleftrightarrow> fnmatch (c # cs) ps \<or> fnmatch cs (CHR ''*'' # ps)"
    by simp
  show ?case
  proof
    assume "fnmatch (c # cs) (CHR ''*'' # ps)"
    then consider "fnmatch (c # cs) ps" | "fnmatch cs (CHR ''*'' # ps)"
      unfolding step by blast
    then show "\<exists>a b. c # cs = a @ b \<and> fnmatch b ps"
    proof cases
      case 1
      then have "c # cs = [] @ (c # cs) \<and> fnmatch (c # cs) ps" by simp
      then show ?thesis by blast
    next
      case 2
      then obtain a b where "cs = a @ b" "fnmatch b ps" using Cons.IH by blast
      then have "c # cs = (c # a) @ b \<and> fnmatch b ps" by simp
      then show ?thesis by blast
    qed
  next
    assume "\<exists>a b. c # cs = a @ b \<and> fnmatch b ps"
    then obtain a b where ab: "c # cs = a @ b" "fnmatch b ps" by blast
    show "fnmatch (c # cs) (CHR ''*'' # ps)"
    proof (cases a)
      case Nil
      then have "fnmatch (c # cs) ps" using ab by simp
      then show ?thesis unfolding step by blast
    next
      case (Cons a0 a')
      then have "cs = a' @ b" using ab by simp
      then have "fnmatch cs (CHR ''*'' # ps)" using ab(2) Cons.IH by blast
      then show ?thesis unfolding step by blast
    qed
  qed
qed

lemma fnmatch_prefix:
  "\<forall>c \<in> set lit. c \<noteq> CHR ''*'' \<and> c \<noteq> CHR ''?'' \<Longrightarrow>
   fnmatch n (lit @ ps) \<longleftrightarrow> (\<exists>t. n = lit @ t \<and> fnmatch t ps)"
proof (induction lit arbitrary: n)
  case Nil
  then show ?case by simp
next
  case (Cons p lit)
  then have "fnmatch n ((p # lit) @ ps) \<longleftrightarrow> (\<exists>t. n = p # t \<and> fnmatch t (lit @ ps))"
    by (simp add: fnmatch_literal)
  also have "\<dots> \<longleftrightarrow> (\<exists>t. n = p # t \<and> (\<exists>u. t = lit @ u \<and> fnmatch u ps))"
    using Cons by simp
  also have "\<dots> \<longleftrightarrow> (\<exists>u. n = (p # lit) @ u \<and> fnmatch u ps)"
    by auto
  finally show ?case .
qed

lemma fnmatch_pattern:
  "fnmatch n ''Camera_Database_*.json'' \<longleftrightarrow> (\<exists>m. n = ''Camera_Database_'' @ m @ ''.json'')"
proof -
  have tail: "fnmatch b ''.json'' \<longleftrightarrow> b = ''.json''" for b
    using fnmatch_prefix[of "''.json''" b "[]"] by simp
  have "fnmatch n (''Camera_Database_'' @ CHR ''*'' # ''.json'')
          \<longleftrightarrow> (\<exists>t. n = ''Camera_Database_'' @ t \<and> fnmatch t (CHR ''*'' # ''.json''))"
    by (rule fnmatch_prefix) simp
  also have "\<dots> \<longleftrightarrow> (\<exists>t. n = ''Camera_Database_'' @ t \<and> (\<exists>a. t = a @ ''.json''))"
    unfolding fnmatch_star tail by blast
  also have "\<dots> \<longleftrightarrow> (\<exists>m. n = ''Camera_Database_'' @ m @ ''.json'')"
    by blast
  finally show ?thesis by simp
qed

lemma glob_pattern:
  "glob names ''Camera_Database_*.json''
     = filter (\<lambda>n. \<exists>m. n = ''Camera_Database_'' @ m @ ''.json'') names"
proof -
  have "\<not> is_hidden n" if "fnmatch n ''Camera_Database_*.json''" for n
    using that by (auto simp: fnmatch_pattern is_hidden_def)
  then have "(\<not> is_hidden n \<and> fnmatch n ''Camera_Database_*.json'')
               = (\<exists>m. n = ''Camera_Database_'' @ m @ ''.json'')" for n
    using fnmatch_pattern by blast
  then show ?thesis by (simp add: glob_def is_hidden_def)
qed

lemma regional_files_eq:
  "regional_files w =
     filter (\<lambda>f. (\<exists>m. f = ''Camera_Database_'' @ m @ ''.json'') \<and> \<not> (\<exists>a b. f = a @ ''Bundle'' @ b))
       (scandir w)"
  by (simp add: regional_files_def glob_pattern str_contains_iff conj_commute)

lemma bundle_paths_contain_Bundle:
  "str_contains ''Bundle'' bundle_path" "str_contains ''Bundle'' sorted_bundle_path"
  by (simp_all add: bundle_path_def sorted_bundle_path_def)

lemma regional_files_not_outputs:
  "f \<in> set (regional_files w) \<Longrightarrow> f \<noteq> bundle_path \<and> f \<noteq> sorted_bundle_path"
  using bundle_paths_contain_Bundle by (auto simp: regional_files_def)

text \<open>
  C6. The candidates are exactly the names of the working directory of the form
  \<^verbatim>\<open>Camera_Database_*.json\<close> that do not contain \<^verbatim>\<open>Bundle\<close>; neither output file is ever
  a candidate, and whether the output files are present in the directory makes no difference
  to the candidates.
\<close>

theorem regional_files_exact:
  "set (regional_files w) =
     {f \<in> set (scandir w). (\<exists>m. f = ''Camera_Database_'' @ m @ ''.json'')
                              \<and> \<not> (\<exists>a b. f = a @ ''Bundle'' @ b)}
   \<and> bundle_path \<notin> set (regional_files w)
   \<and> sorted_bundle_path \<notin> set (regional_files w)
   \<and> regional_files
        (w\<lparr>scandir := filter (\<lambda>f. f \<noteq> bundle_path \<and> f \<noteq> sorted_bundle_path) (scandir w)\<rparr>)
       = regional_files w"
proof -
  have "regional_files
        (w\<lparr>scandir := filter (\<lambda>f. f \<noteq> bundle_path \<and> f \<noteq> sorted_bundle_path) (scandir w)\<rparr>)
       = filter (\<lambda>f. f \<noteq> bundle_path \<and> f \<noteq> sorted_bundle_path) (regional_files w)"
    by (auto simp: regional_files_def glob_def intro: filter_cong)
  also have "\<dots> = regional_files w"
    using regional_files_not_outputs[of _ w] by (simp add: filter_id_conv)
  finally show ?thesis
    using regional_files_not_outputs[of _ w] by (auto simp: regional_files_eq)
qed

theorem regional_files_exact_witness:
  "(\<exists>m. ''Camera_Database_TX.json'' = ''Camera_Database_'' @ m @ ''.json'')
   \<and> \<not> (\<exists>a b. ''Camera_Database_TX.json'' = a @ ''Bundle'' @ b)
   \<and> bundle_path \<in> set (scandir demo) \<and> bundle_path \<notin> set (regional_files demo)"
proof -
  have "''Camera_Database_TX.json'' \<in> set (regional_files demo)"
    by code_simp
  moreover have "bundle_path \<in> set (scandir demo)"
    by code_simp
  ultimately show ?thesis using regional_files_exact[of demo] by blast
qed

section \<open>How a run ends\<close>

lemma result_rebuild_bundles:
  "result (rebuild_bundles w) =
     (case write_file w bundle_path (json_dump w (unsorted_bundle w)) of
        Some e \<Rightarrow> Inl e
      | None \<Rightarrow>
          (case sorted_bundle w of
             Inl e \<Rightarrow> Inl e
           | Inr b \<Rightarrow>
               (case write_file w sorted_bundle_path (json_dump w b) of
                  Some e \<Rightarrow> Inl e
                | None \<Rightarrow> Inr (length (all_cameras (load_regions w))))))"
  by (simp add: rebuild_bundles_def Let_def split: option.splits sum.splits)

lemma written_rebuild_bundles:
  "written (rebuild_bundles w) =
     (case write_file w bundle_path (json_dump w (unsorted_bundle w)) of
        Some e \<Rightarrow> []
      | None \<Rightarrow>
          (case sorted_bundle w of
             Inl e \<Rightarrow> [(bundle_path, json_dump w (unsorted_bundle w))]
           | Inr b \<Rightarrow>
               (case write_file w sorted_bundle_path (json_dump w b) of
                  Some e \<Rightarrow> [(bundle_path, json_dump w (unsorted_bundle w))]
                | None \<Rightarrow> [(bundle_path, json_dump w (unsorted_bundle w)),
                             (sorted_bundle_path, json_dump w b)])))"
  by (simp add: rebuild_bundles_def Let_def split: option.splits sum.splits)

lemma main_Inr:
  "result (rebuild_bundles w) = Inr n \<Longrightarrow>
   main w = \<lparr>console = stdout (rebuild_bundles w) @ [Success n],
             files = written (rebuild_bundles w), exit_status = 0\<rparr>"
  by (simp add: main_def Let_def)

lemma main_Inl:
  "result (rebuild_bundles w) = Inl e \<Longrightarrow>
   main w = \<lparr>console = stdout (rebuild_bundles w) @ [ErrorRebuilding e],
             files = written (rebuild_bundles w), exit_status = 1\<rparr>"
  by (simp add: main_def Let_def)

lemma files_main: "files (main w) = written (rebuild_bundles w)"
  by (cases "result (rebuild_bundles w)") (simp_all add: main_Inl main_Inr)

text \<open>
  C8. A run that completes exits with status 0. An exception that leaves
  \<^verbatim>\<open>rebuild_bundles\<close> (a failed write of either output file, or an exception of the sort)
  is printed and the process exits with status 1.
\<close>

theorem main_exit_status:
  "(case result (rebuild_bundles w) of
      Inr n \<Rightarrow> exit_status (main w) = 0
               \<and> console (main w) = stdout (rebuild_bundles w) @ [Success n]
    | Inl e \<Rightarrow> exit_status (main w) = 1
               \<and> console (main w) = stdout (rebuild_bundles w) @ [ErrorRebuilding e])
   \<and> (\<forall>e. write_file w bundle_path (json_dump w (unsorted_bundle w)) = Some e
          \<longrightarrow> result (rebuild_bundles w) = Inl e)
   \<and> (\<forall>e. write_file w bundle_path (json_dump w (unsorted_bundle w)) = None
          \<and> sorted_bundle w = Inl e
          \<longrightarrow> result (rebuild_bundles w) = Inl e)
   \<and> (\<forall>e b. write_file w bundle_path (json_dump w (unsorted_bundle w)) = None
          \<and> sorted_bundle w = Inr b
          \<and> write_file w sorted_bundle_path (json_dump w b) = Some e
          \<longrightarrow> result (rebuild_bundles w) = Inl e)
   \<and> (\<forall>b. write_file w bundle_path (json_dump w (unsorted_bundle w)) = None
          \<and> sorted_bundle w = Inr b
          \<and> write_file w sorted_bundle_path (json_dump w b) = None
          \<longrightarrow> result (rebuild_bundles w) = Inr (length (bundle_records (unsorted_bundle w))))"
proof -
  have "case result (rebuild_bundles w) of
      Inr n \<Rightarrow> exit_status (main w) = 0
               \<and> console (main w) = stdout (rebuild_bundles w) @ [Success n]
    | Inl e \<Rightarrow> exit_status (main w) = 1
               \<and> console (main w) = stdout (rebuild_bundles w) @ [ErrorRebuilding e]"
    by (cases "result (rebuild_bundles w)") (simp_all add: main_Inl main_Inr)
  then show ?thesis
    by (simp add: result_rebuild_bundles[of w] unsorted_bundle_def)
qed

theorem main_exit_status_witness:
  "exit_status (main demo) = 0
   \<and> exit_status (main readonly_world) = 1
   \<and> last (console (main readonly_world)) = ErrorRebuilding OSError"
proof -
  have "result (rebuild_bundles demo) = Inr 4"
    by code_simp
  moreover have "result (rebuild_bundles readonly_world) = Inl OSError"
    by code_simp
  ultimately show ?thesis
    using main_exit_status[of demo] main_exit_status[of readonly_world] by simp
qed





section \<open>Runs on the same input files\<close>

lemma process_file_cong:
  "json_load w' f = json_load w f \<Longrightarrow> process_file w' st f = process_file w st f"
  by (simp add: process_file_def)

lemma foldl_process_file_cong:
  "\<forall>f \<in> set fs. json_load w' f = json_load w f \<Longrightarrow>
   foldl (process_file w') st fs = foldl (process_file w) st fs"
  by (induction fs arbitrary: st) (simp_all add: process_file_cong[of w' _ w])

lemma sort_mset_cong: "mset xs = mset ys \<Longrightarrow> sort xs = sort ys"
  by (rule properties_for_sort) simp_all

lemma load_regions_cong:
  assumes "mset (regional_files w') = mset (regional_files w)"
    and "\<forall>f \<in> set (regional_files w). json_load w' f = json_load w f"
  shows "load_regions w' = load_regions w"
proof -
  have s: "sort (regional_files w') = sort (regional_files w)"
    using assms(1) by (rule sort_mset_cong)
  have l: "length (regional_files w') = length (regional_files w)"
    using assms(1) by (rule mset_eq_length)
  have "\<forall>f \<in> set (sort (regional_files w)). json_load w' f = json_load w f"
    using assms(2) by simp
  then show ?thesis
    unfolding load_regions_def s l by (rule foldl_process_file_cong)
qed

lemma rebuild_bundles_cong:
  assumes "load_regions w' = load_regions w" and "write_file w' = write_file w"
    and "str_upper w' = str_upper w" and "json_dump w' = json_dump w"
  shows "rebuild_bundles w' = rebuild_bundles w"
proof -
  have u: "unsorted_bundle w' = unsorted_bundle w"
    using assms(1) by (simp add: unsorted_bundle_def)
  have "sorted_cameras w' = sorted_cameras w"
    using assms(1,3) by (simp add: sorted_cameras_def)
  then have s: "sorted_bundle w' = sorted_bundle w"
    by (simp add: sorted_bundle_def)
  show ?thesis
    unfolding rebuild_bundles_def u s assms ..
qed


lemma regional_files_without_outputs:
  "regional_files w =
     filter (\<lambda>f. (\<exists>m. f = ''Camera_Database_'' @ m @ ''.json'') \<and> \<not> (\<exists>a b. f = a @ ''Bundle'' @ b))
       (filter (\<lambda>f. f \<noteq> bundle_path \<and> f \<noteq> sorted_bundle_path) (scandir w))"
proof -
  have out: "f \<noteq> bundle_path \<and> f \<noteq> sorted_bundle_path" if "\<not> (\<exists>a b. f = a @ ''Bundle'' @ b)" for f
    using that bundle_paths_contain_Bundle unfolding str_contains_iff by blast
  show ?thesis
    unfolding regional_files_eq filter_filter
  proof (rule filter_cong[OF refl])
    fix f
    show "((\<exists>m. f = ''Camera_Database_'' @ m @ ''.json'') \<and> \<not> (\<exists>a b. f = a @ ''Bundle'' @ b))
        = ((f \<noteq> bundle_path \<and> f \<noteq> sorted_bundle_path)
           \<and> (\<exists>m. f = ''Camera_Database_'' @ m @ ''.json'') \<and> \<not> (\<exists>a b. f = a @ ''Bundle'' @ b))"
      using out[of f] by blast
  qed
qed

text \<open>
  C7. Two runs over the same input files write the same two files with the same contents,
  print the same lines and exit alike: the order in which the directory is scanned, and
  whether the output files of an earlier run are present, make no difference.
\<close>

theorem rebuild_deterministic:
  assumes "mset (filter (\<lambda>f. f \<noteq> bundle_path \<and> f \<noteq> sorted_bundle_path) (scandir w'))
             = mset (filter (\<lambda>f. f \<noteq> bundle_path \<and> f \<noteq> sorted_bundle_path) (scandir w))"
    and "\<forall>f. f \<noteq> bundle_path \<and> f \<noteq> sorted_bundle_path \<longrightarrow> json_load w' f = json_load w f"
    and "write_file w' = write_file w" and "str_upper w' = str_upper w"
    and "json_dump w' = json_dump w"
  shows "files (main w') = files (main w) \<and> main w' = main w"
proof -
  have "mset (regional_files w') = mset (regional_files w)"
    unfolding regional_files_without_outputs[of w'] regional_files_without_outputs[of w]
    using assms(1) by (simp only: mset_filter)
  moreover have "\<forall>f \<in> set (regional_files w). json_load w' f = json_load w f"
    using assms(2) regional_files_not_outputs by blast
  ultimately have "load_regions w' = load_regions w"
    by (rule load_regions_cong)
  then have "rebuild_bundles w' = rebuild_bundles w"
    using assms(3-5) by (rule rebuild_bundles_cong)
  then show ?thesis by (simp add: main_def)
qed


theorem rebuild_deterministic_witness:
  "files (main demo_rerun) = files (main demo)
   \<and> scandir demo_rerun \<noteq> scandir demo
   \<and> json_load demo_rerun bundle_path \<noteq> json_load demo bundle_path"
proof -
  have a: "mset (filter (\<lambda>f. f \<noteq> bundle_path \<and> f \<noteq> sorted_bundle_path) (scandir demo_rerun))
             = mset (filter (\<lambda>f. f \<noteq> bundle_path \<and> f \<noteq> sorted_bundle_path) (scandir demo))"
  proof -
    have "filter (\<lambda>f. f \<noteq> bundle_path \<and> f \<noteq> sorted_bundle_path) (scandir demo_rerun)
            = [''Camera_Database_Empty.json'', ''Camera_Database_CA.json'', ''notes.txt'',
               ''Camera_Database_Broken.json'', ''Camera_Database_TX.json'']"
      by code_simp
    moreover have "filter (\<lambda>f. f \<noteq> bundle_path \<and> f \<noteq> sorted_bundle_path) (scandir demo)
            = [''Camera_Database_TX.json'', ''notes.txt'', ''Camera_Database_Broken.json'',
               ''Camera_Database_CA.json'', ''Camera_Database_Empty.json'']"
      by code_simp
    ultimately show ?thesis by (simp only: mset.simps add_mset_commute)
  qed
  have b: "\<forall>f. f \<noteq> bundle_path \<and> f \<noteq> sorted_bundle_path
            \<longrightarrow> json_load demo_rerun f = json_load demo f"
    by (simp add: demo_rerun_def demo_def)
  have c: "write_file demo_rerun = write_file demo" "str_upper demo_rerun = str_upper demo"
    "json_dump demo_rerun = json_dump demo"
    by (simp_all add: demo_rerun_def)
  have "scandir demo_rerun \<noteq> scandir demo"
    by code_simp
  moreover have "json_load demo_rerun bundle_path \<noteq> json_load demo bundle_path"
    by code_simp
  ultimately show ?thesis
    using rebuild_deterministic[OF a b c] by simp
qed

section \<open>Malformed files among valid ones\<close>

lemma printed_process_file:
  "\<exists>evs. printed (process_file w st f) = printed st @ evs"
proof (cases w f rule: process_file_cases)
  case (error e)
  then show ?thesis by (simp add: process_file_load_error say_def)
next
  case (absent d)
  from process_file_no_alerts[OF this, of st] show ?thesis
    by (auto simp: say_def)
next
  case (not_iterable d c e)
  from process_file_not_iterable[OF this, of st] show ?thesis
    by (simp add: say_def)
next
  case (extend d c items)
  from process_file_extend[OF this, of st] show ?thesis
    by (simp add: say_def)
qed

lemma printed_foldl:
  "set (printed st) \<subseteq> set (printed (foldl (process_file w) st fs))"
proof (induction fs arbitrary: st)
  case Nil
  then show ?case by simp
next
  case (Cons f fs)
  obtain evs where "printed (process_file w st f) = printed st @ evs"
    using printed_process_file by blast
  then have "set (printed st) \<subseteq> set (printed (process_file w st f))" by simp
  also have "\<dots> \<subseteq> set (printed (foldl (process_file w) (process_file w st f) fs))"
    by (rule Cons.IH)
  finally show ?case by simp
qed

lemma malformed_diagnostic:
  assumes "malformed_file w f"
  shows "\<exists>ev \<in> set (printed (process_file w st f)). is_diagnostic (region_name f) ev"
proof (cases "json_load w f")
  case (Inl e)
  then show ?thesis by (simp add: process_file_load_error say_def)
next
  case (Inr d)
  then have "static_alerts d = None" using assms by (simp add: malformed_file_def)
  from process_file_no_alerts[OF Inr this, of st] show ?thesis
    by (auto simp: say_def)
qed

lemma foldl_diagnostic:
  assumes "f \<in> set fs" and "malformed_file w f"
  shows "\<exists>ev \<in> set (printed (foldl (process_file w) st fs)). is_diagnostic (region_name f) ev"
  using assms(1)
proof (induction fs arbitrary: st)
  case Nil
  then show ?case by simp
next
  case (Cons g fs)
  show ?case
  proof (cases "f = g")
    case True
    obtain ev where "ev \<in> set (printed (process_file w st f))" "is_diagnostic (region_name f) ev"
      using malformed_diagnostic[OF assms(2)] by blast
    then show ?thesis using printed_foldl[of "process_file w st f" w fs] True by auto
  next
    case False
    then have "f \<in> set fs" using Cons.prems by simp
    then show ?thesis using Cons.IH by simp
  qed
qed

lemma stdout_rebuild_bundles:
  "set (printed (load_regions w)) \<subseteq> set (stdout (rebuild_bundles w))"
  by (auto simp: rebuild_bundles_def Let_def split: option.splits sum.splits)

lemma console_main: "set (stdout (rebuild_bundles w)) \<subseteq> set (console (main w))"
  by (cases "result (rebuild_bundles w)") (auto simp: main_Inl main_Inr)

lemma valid_file_records: "valid_file w f \<Longrightarrow> list_all is_record (file_records w f)"
  by (auto simp: valid_file_def file_records_def split: sum.splits option.splits json.splits)

lemma malformed_file_records: "malformed_file w f \<Longrightarrow> file_records w f = []"
  by (auto simp: malformed_file_def file_records_def split: sum.splits)

lemma valid_file_records_eq: "valid_file w f \<Longrightarrow> file_records w f = valid_records w f"
  by (auto simp: valid_file_def file_records_def valid_records_def
      split: sum.splits option.splits json.splits)

lemma concat_map_filter_on:
  "(\<And>x. x \<in> set xs \<Longrightarrow> \<not> P x \<Longrightarrow> g x = []) \<Longrightarrow>
   concat (map g (filter P xs)) = concat (map g xs)"
  by (induction xs) auto

text \<open>
  C5. When every candidate file is either valid or malformed (it does not parse, or it lacks
  \<^verbatim>\<open>feeds[0].staticAlerts\<close>) and the two output files can be written, the run completes with
  exit status 0 and writes both files, every malformed file yields no record and a printed
  diagnostic, the unsorted bundle holds exactly the \<^verbatim>\<open>staticAlerts\<close> sequences of the valid
  files, one after the other in file order, and the sorted bundle holds the same records.
\<close>

theorem fault_isolation:
  assumes "\<forall>f \<in> set (regional_files w). valid_file w f \<or> malformed_file w f"
    and "\<forall>t. write_file w bundle_path t = None"
    and "\<forall>t. write_file w sorted_bundle_path t = None"
  shows "exit_status (main w) = 0
       \<and> bundle_records (unsorted_bundle w) =
           concat (map (valid_records w) (filter (valid_file w) (sort (regional_files w))))
       \<and> (\<exists>b. sorted_bundle w = Inr b
              \<and> mset (bundle_records b) =
                  mset (concat (map (valid_records w)
                    (filter (valid_file w) (sort (regional_files w)))))
              \<and> files (main w) = [(bundle_path, json_dump w (unsorted_bundle w)),
                                   (sorted_bundle_path, json_dump w b)])
       \<and> (\<forall>f \<in> set (regional_files w). malformed_file w f \<longrightarrow>
              file_records w f = []
            \<and> (\<exists>ev \<in> set (console (main w)). is_diagnostic (region_name f) ev))"
proof -
  let ?fs = "sort (regional_files w)"
  have skipped: "file_records w f = []" if "f \<in> set ?fs" "\<not> valid_file w f" for f
    using that assms(1) by (auto simp: malformed_file_records)
  have same: "map (file_records w) (filter (valid_file w) ?fs)
                = map (valid_records w) (filter (valid_file w) ?fs)"
    by (rule map_cong[OF refl]) (simp add: valid_file_records_eq)
  have "bundle_records (unsorted_bundle w) =
           concat (map (file_records w) (filter (valid_file w) ?fs))"
    using concat_map_filter_on[of ?fs "valid_file w" "file_records w", OF skipped]
    by (simp add: unsorted_bundle_def all_cameras_load_regions)
  then have unsorted: "bundle_records (unsorted_bundle w) =
           concat (map (valid_records w) (filter (valid_file w) ?fs))"
    by (simp only: same)
  have rec: "is_record x" if "x \<in> set (all_cameras (load_regions w))" for x
  proof -
    from that obtain f where f: "f \<in> set (regional_files w)" "x \<in> set (file_records w f)"
      by (auto simp: all_cameras_load_regions)
    then have "valid_file w f" using assms(1) malformed_file_records by fastforce
    then show ?thesis using valid_file_records f(2) by (auto simp: list_all_iff)
  qed
  have "\<forall>x \<in> set (all_cameras (load_regions w)). \<exists>k. camera_key (str_upper w) x = Inr k"
  proof
    fix x assume "x \<in> set (all_cameras (load_regions w))"
    then have "camera_key (str_upper w) x = Inr (tuple_key (str_upper w) x)"
      using rec by (simp add: camera_key_eq)
    then show "\<exists>k. camera_key (str_upper w) x = Inr k" ..
  qed
  then obtain kxs where "keyed (camera_key (str_upper w)) (all_cameras (load_regions w)) = Inr kxs"
    using keyed_total by blast
  then obtain ys where ys: "sorted_cameras w = Inr ys"
    by (simp add: sorted_cameras_def py_sorted_def bindE_def)
  define b where "b = make_bundle ''Community-sourced camera locations for Dukes R8 app (sorted)'' ys"
  have sb: "sorted_bundle w = Inr b"
    using ys by (simp add: sorted_bundle_def bindE_def b_def)
  have perm: "mset (bundle_records b) = mset (bundle_records (unsorted_bundle w))"
    using py_sorted_mset[OF ys[unfolded sorted_cameras_def]]
    by (simp add: b_def unsorted_bundle_def)
  have res: "result (rebuild_bundles w) = Inr (length (all_cameras (load_regions w)))"
    using assms(2,3) sb by (simp add: result_rebuild_bundles)
  have fl: "files (main w) = [(bundle_path, json_dump w (unsorted_bundle w)),
                                   (sorted_bundle_path, json_dump w b)]"
    using assms(2,3) sb by (simp add: files_main written_rebuild_bundles)
  have diag: "\<exists>ev \<in> set (console (main w)). is_diagnostic (region_name f) ev"
    if "f \<in> set (regional_files w)" "malformed_file w f" for f
  proof -
    have "f \<in> set ?fs" using that(1) by simp
    from foldl_diagnostic[OF this that(2)]
    obtain ev where "ev \<in> set (printed (load_regions w))" "is_diagnostic (region_name f) ev"
      unfolding load_regions_def by blast
    then show ?thesis using stdout_rebuild_bundles[of w] console_main[of w] by blast
  qed
  have "exit_status (main w) = 0"
    using res by (simp add: main_Inr)
  moreover have "\<exists>b. sorted_bundle w = Inr b
              \<and> mset (bundle_records b) =
                  mset (concat (map (valid_records w) (filter (valid_file w) ?fs)))
              \<and> files (main w) = [(bundle_path, json_dump w (unsorted_bundle w)),
                                   (sorted_bundle_path, json_dump w b)]"
    using sb perm fl unfolding unsorted by blast
  ultimately show ?thesis
    using unsorted diag by (simp add: malformed_file_records)
qed

theorem fault_isolation_witness:
  "exit_status (main demo) = 0
   \<and> malformed_file demo ''Camera_Database_Broken.json''
   \<and> (\<exists>ev \<in> set (console (main demo)). is_diagnostic ''Broken'' ev)
   \<and> bundle_records (unsorted_bundle demo) =
       [camera 3 ''CA'' ''Fresno'' ''Oak Ave'', camera 1 ''TX'' ''Austin'' ''Main St'',
        camera 2 ''tx'' ''austin'' ''main st'', JObj [(''id'', JInt 4), (''state'', JStr ''az'')]]
   \<and> (\<exists>b. sorted_bundle demo = Inr b
          \<and> mset (bundle_records b) =
              mset [camera 3 ''CA'' ''Fresno'' ''Oak Ave'', camera 1 ''TX'' ''Austin'' ''Main St'',
                    camera 2 ''tx'' ''austin'' ''main st'',
                    JObj [(''id'', JInt 4), (''state'', JStr ''az'')]]
          \<and> map fst (files (main demo)) = [bundle_path, sorted_bundle_path])"
proof -
  have a: "\<forall>f \<in> set (regional_files demo). valid_file demo f \<or> malformed_file demo f"
    by code_simp
  have b: "\<forall>t. write_file demo bundle_path t = None"
    and c: "\<forall>t. write_file demo sorted_bundle_path t = None"
    by (simp_all add: demo_def)
  have m: "malformed_file demo ''Camera_Database_Broken.json''"
    by code_simp
  have r: "''Camera_Database_Broken.json'' \<in> set (regional_files demo)"
    by code_simp
  have n: "region_name ''Camera_Database_Broken.json'' = ''Broken''"
    by code_simp
  have v: "concat (map (valid_records demo) (filter (valid_file demo) (sort (regional_files demo))))
             = [camera 3 ''CA'' ''Fresno'' ''Oak Ave'', camera 1 ''TX'' ''Austin'' ''Main St'',
                camera 2 ''tx'' ''austin'' ''main st'',
                JObj [(''id'', JInt 4), (''state'', JStr ''az'')]]"
    by code_simp
  note fi = fault_isolation[OF a b c]
  from fi have "\<forall>f \<in> set (regional_files demo). malformed_file demo f \<longrightarrow>
      (\<exists>ev \<in> set (console (main demo)). is_diagnostic (region_name f) ev)"
    by blast
  with m r have "\<exists>ev \<in> set (console (main demo)).
      is_diagnostic (region_name ''Camera_Database_Broken.json'') ev"
    by blast
  then have d: "\<exists>ev \<in> set (console (main demo)). is_diagnostic ''Broken'' ev"
    by (simp only: n)
  from fi have e: "exit_status (main demo) = 0"
    and u: "bundle_records (unsorted_bundle demo) =
           concat (map (valid_records demo) (filter (valid_file demo) (sort (regional_files demo))))"
    by blast+
  from fi obtain sb where sb: "sorted_bundle demo = Inr sb"
    "mset (bundle_records sb) =
       mset (concat (map (valid_records demo)
         (filter (valid_file demo) (sort (regional_files demo)))))"
    "files (main demo) = [(bundle_path, json_dump demo (unsorted_bundle demo)),
                          (sorted_bundle_path, json_dump demo sb)]"
    by blast
  have "\<exists>b. sorted_bundle demo = Inr b
          \<and> mset (bundle_records b) =
              mset [camera 3 ''CA'' ''Fresno'' ''Oak Ave'', camera 1 ''TX'' ''Austin'' ''Main St'',
                    camera 2 ''tx'' ''austin'' ''main st'',
                    JObj [(''id'', JInt 4), (''state'', JStr ''az'')]]
          \<and> map fst (files (main demo)) = [bundle_path, sorted_bundle_path]"
    using sb unfolding v by (intro exI[of _ sb]) simp
  then show ?thesis using e m d u unfolding v by blast
qed

end
